theory Spec2Isabelle
  imports Complex_Main "HOL-Library.Log_Nat"
begin

section \<open>Python floats as IEEE 754 binary64 values\<close>

text \<open>
  The calculator works on Python \<^verbatim>\<open>float\<close>s. A float is modelled by the rational number
  it denotes, or by one of the three special values. The two zeros are identified: the
  program never divides and never inspects the sign of a zero.
\<close>

datatype pyfloat = Flt rat | PInf | NInf | NaN

text \<open>\<open>flog2 x\<close> is the binary exponent of a non-zero \<open>x\<close>: the \<open>e\<close> with
  \<open>2^e \<le> |x| < 2^(e+1)\<close>, computed from the bit lengths of numerator and denominator.\<close>

definition flog2 :: "rat \<Rightarrow> int" where
  "flog2 x =
     (let (p, q) = quotient_of \<bar>x\<bar>; d = bitlen p - bitlen q
      in if 2 powi d \<le> \<bar>x\<bar> then d else d - 1)"

text \<open>The spacing of binary64 numbers around \<open>x\<close>: 53 significant bits, and the fixed
  spacing \<open>2^-1074\<close> of the subnormal range below \<open>2^-1022\<close>.\<close>

definition quantum :: "rat \<Rightarrow> rat" where
  "quantum x = 2 powi (max (flog2 x) (- 1022) - 52)"

definition round_half_even :: "rat \<Rightarrow> int" where
  "round_half_even x =
     (let f = \<lfloor>x\<rfloor>; d = x - of_int f
      in if d < 1 / 2 then f
         else if 1 / 2 < d then f + 1
         else if even f then f else f + 1)"

text \<open>Rounding of an exact result to binary64, to nearest with ties to even, overflowing
  to an infinity: what every float operation and every float literal of Python does.\<close>

definition round_binary64 :: "rat \<Rightarrow> pyfloat" where
  "round_binary64 x =
     (if x = 0 then Flt 0
      else let q = quantum x; r = of_int (round_half_even (x / q)) * q
           in if 2 powi 1024 \<le> \<bar>r\<bar> then (if 0 < x then PInf else NInf) else Flt r)"

text \<open>The float written as the decimal literal \<open>m \<times> 10^-k\<close> in the source:
  \<open>lit 1 2\<close> is \<^verbatim>\<open>0.01\<close>, \<open>lit 50 1\<close> is \<^verbatim>\<open>5.0\<close>.\<close>

definition lit :: "int \<Rightarrow> nat \<Rightarrow> pyfloat" where
  "lit m k = round_binary64 (of_int m / 10 ^ k)"

fun float_neg :: "pyfloat \<Rightarrow> pyfloat" where
  "float_neg (Flt a) = Flt (- a)"
| "float_neg PInf = NInf"
| "float_neg NInf = PInf"
| "float_neg NaN = NaN"

fun float_add :: "pyfloat \<Rightarrow> pyfloat \<Rightarrow> pyfloat" where
  "float_add (Flt a) (Flt b) = round_binary64 (a + b)"
| "float_add NaN _ = NaN"
| "float_add _ NaN = NaN"
| "float_add PInf NInf = NaN"
| "float_add NInf PInf = NaN"
| "float_add PInf _ = PInf"
| "float_add _ PInf = PInf"
| "float_add NInf _ = NInf"
| "float_add _ NInf = NInf"

definition float_sub :: "pyfloat \<Rightarrow> pyfloat \<Rightarrow> pyfloat" where
  "float_sub x y = float_add x (float_neg y)"

text \<open>The sign of a float as \<open>-1\<close>, \<open>0\<close> or \<open>1\<close>; \<open>NaN\<close> has none.\<close>

fun float_sgn :: "pyfloat \<Rightarrow> int option" where
  "float_sgn (Flt a) = Some (if a < 0 then - 1 else if a = 0 then 0 else 1)"
| "float_sgn PInf = Some 1"
| "float_sgn NInf = Some (- 1)"
| "float_sgn NaN = None"

fun float_mul :: "pyfloat \<Rightarrow> pyfloat \<Rightarrow> pyfloat" where
  "float_mul (Flt a) (Flt b) = round_binary64 (a * b)"
| "float_mul x y =
     (case (float_sgn x, float_sgn y) of
        (Some s, Some t) \<Rightarrow> if s * t = 0 then NaN else if 0 < s * t then PInf else NInf
      | _ \<Rightarrow> NaN)"

text \<open>\<^verbatim>\<open>x % 5\<close>: the remainder takes the sign of the divisor, so it is
  \<open>x - 5 * \<lfloor>x / 5\<rfloor>\<close>; that value is itself a float when \<open>x\<close> is a float and
  \<open>0 \<le> x\<close>, and is rounded when \<open>x < 0\<close>. An infinity has no remainder.\<close>

fun float_mod5 :: "pyfloat \<Rightarrow> pyfloat" where
  "float_mod5 (Flt a) = round_binary64 (a - 5 * of_int \<lfloor>a / 5\<rfloor>)"
| "float_mod5 _ = NaN"

fun is_integer :: "pyfloat \<Rightarrow> bool" where
  "is_integer (Flt a) = (of_int \<lfloor>a\<rfloor> = a)"
| "is_integer _ = False"

text \<open>Comparisons: every comparison with \<open>NaN\<close> is false, also \<open>NaN == NaN\<close>.\<close>

fun float_lt :: "pyfloat \<Rightarrow> pyfloat \<Rightarrow> bool" where
  "float_lt (Flt a) (Flt b) = (a < b)"
| "float_lt NaN _ = False"
| "float_lt _ NaN = False"
| "float_lt _ NInf = False"
| "float_lt PInf _ = False"
| "float_lt NInf _ = True"
| "float_lt _ PInf = True"

definition float_eq :: "pyfloat \<Rightarrow> pyfloat \<Rightarrow> bool" where
  "float_eq x y = (x \<noteq> NaN \<and> x = y)"

definition float_le :: "pyfloat \<Rightarrow> pyfloat \<Rightarrow> bool" where
  "float_le x y = (float_lt x y \<or> float_eq x y)"

text \<open>\<^verbatim>\<open>max(a, b)\<close> keeps \<open>a\<close> unless \<open>b > a\<close>; \<^verbatim>\<open>min(a, b)\<close> keeps \<open>a\<close> unless
  \<open>b < a\<close>.\<close>

definition py_max :: "pyfloat \<Rightarrow> pyfloat \<Rightarrow> pyfloat" where
  "py_max a b = (if float_lt a b then b else a)"

definition py_min :: "pyfloat \<Rightarrow> pyfloat \<Rightarrow> pyfloat" where
  "py_min a b = (if float_lt b a then b else a)"

text \<open>\<^verbatim>\<open>round(x, n)\<close> of CPython rounds the exact value of \<open>x\<close> to \<open>n\<close> decimals,
  ties to even, and returns the float nearest to that decimal; infinities and \<open>NaN\<close>
  are returned as they are.\<close>

fun py_round :: "pyfloat \<Rightarrow> nat \<Rightarrow> pyfloat" where
  "py_round (Flt a) n = round_binary64 (of_int (round_half_even (a * 10 ^ n)) / 10 ^ n)"
| "py_round x n = x"

section \<open>The range table\<close>

text \<open>A band is the tuple \<open>(start, end, fluctuation)\<close>. The integer entries of the
  source (\<^verbatim>\<open>10\<close>, \<^verbatim>\<open>50\<close>, ...) are exactly representable, and Python compares and
  combines an int with a float by its exact value.\<close>

type_synonym band = "pyfloat \<times> pyfloat \<times> pyfloat"

definition create_price_table :: "band list" where
  "create_price_table =
     [(lit 1 2, Flt 10, lit 1 2),
      (Flt 10, Flt 50, lit 5 2),
      (Flt 50, Flt 100, lit 1 1),
      (Flt 100, Flt 150, lit 5 1),
      (Flt 150, Flt 500, lit 5 1),
      (Flt 500, Flt 1000, lit 10 1),
      (Flt 1000, PInf, lit 50 1)]"

section \<open>The fluctuation calculator\<close>

datatype rule =
    NotANumber | NotPositive | BelowMinimum | ExceedsMaximum
  | TwoDecimals | MultipleOf005 | MultipleOf01 | MultipleOf05 | WholeNumber | MultipleOf5

datatype exn = InvalidPriceError rule | IndexError

text \<open>The \<^verbatim>\<open>price\<close> argument as \<^verbatim>\<open>float(price)\<close> sees it. The parameter is declared
  a \<^verbatim>\<open>float\<close>; a float, and a string or an int that converts, is given by the float
  it converts to (so \<^verbatim>\<open>"nan"\<close> is \<open>NaN\<close> and \<^verbatim>\<open>"1e400"\<close> is \<open>PInf\<close>).
  \<open>Malformed\<close> is a string for which the conversion raises \<^verbatim>\<open>ValueError\<close>, the one
  exception the source catches. Arguments of other types are not modelled.\<close>

datatype price_arg = Numeric pyfloat | Malformed

text \<open>\<^verbatim>\<open>bisect.bisect_right(a, x)\<close> of the standard library.\<close>

function bisect_right_loop :: "pyfloat list \<Rightarrow> pyfloat \<Rightarrow> nat \<Rightarrow> nat \<Rightarrow> nat" where
  "bisect_right_loop a x lo hi =
     (if lo < hi
      then let mid = (lo + hi) div 2
           in if float_lt x (a ! mid) then bisect_right_loop a x lo mid
              else bisect_right_loop a x (mid + 1) hi
      else lo)"
  by pat_completeness auto
termination
  by (relation "measure (\<lambda>(a, x, lo, hi). hi - lo)") auto

definition bisect_right :: "pyfloat list \<Rightarrow> pyfloat \<Rightarrow> nat" where
  "bisect_right a x = bisect_right_loop a x 0 (length a)"

text \<open>\<^verbatim>\<open>xs[i]\<close>: a negative index counts from the end of the list.\<close>

definition subscript :: "'a list \<Rightarrow> int \<Rightarrow> exn + 'a" where
  "subscript xs i =
     (if 0 \<le> i \<and> i < int (length xs) then Inr (xs ! nat i)
      else if i < 0 \<and> - int (length xs) \<le> i then Inr (xs ! nat (int (length xs) + i))
      else Inl IndexError)"

text \<open>Line 77: the index of the band.\<close>

definition band_index :: "band list \<Rightarrow> pyfloat \<Rightarrow> int" where
  "band_index ranges price = int (bisect_right (map fst ranges) price) - 1"

text \<open>Lines 81 to 102: the tick rules, on fixed thresholds; only the first one reads
  the band's \<open>start\<close>.\<close>

definition tick_violation :: "pyfloat \<Rightarrow> pyfloat \<Rightarrow> rule option" where
  "tick_violation start price =
     (if float_le start price \<and> float_lt price (Flt 10)
         \<and> \<not> is_integer (float_mul price (Flt 100)) then Some TwoDecimals
      else if float_le (Flt 10) price \<and> float_lt price (Flt 50)
         \<and> \<not> is_integer (float_mul price (Flt 20)) then Some MultipleOf005
      else if float_le (Flt 50) price \<and> float_lt price (Flt 100)
         \<and> \<not> is_integer (float_mul price (Flt 10)) then Some MultipleOf01
      else if float_le (Flt 100) price \<and> float_lt price (Flt 500)
         \<and> \<not> is_integer (float_mul price (Flt 2)) then Some MultipleOf05
      else if float_le (Flt 500) price \<and> float_lt price (Flt 1000)
         \<and> \<not> is_integer price then Some WholeNumber
      else if float_le (Flt 1000) price
         \<and> \<not> (float_eq (float_mod5 price) (Flt 0) \<and> is_integer price) then Some MultipleOf5
      else None)"

text \<open>Lines 105 to 108: the downward fluctuation.\<close>

definition down_fluctuation :: "band list \<Rightarrow> int \<Rightarrow> pyfloat \<Rightarrow> pyfloat \<Rightarrow> pyfloat \<Rightarrow> exn + pyfloat" where
  "down_fluctuation ranges index start fluctuation price =
     (if float_eq price start \<and> 0 < index
      then (case subscript ranges (index - 1) of
              Inl e \<Rightarrow> Inl e
            | Inr (prev_start, prev_end, prev_fluctuation) \<Rightarrow> Inr prev_fluctuation)
      else Inr fluctuation)"

text \<open>Lines 110 to 116: the two bounds.\<close>

definition bounds :: "pyfloat \<Rightarrow> pyfloat \<Rightarrow> pyfloat \<Rightarrow> pyfloat \<times> pyfloat" where
  "bounds price down_fl fluctuation =
     (let down_price = py_max (float_sub price down_fl) (lit 1 2);
          up_price = float_add price fluctuation;
          down_price = py_min down_price price
      in (py_round down_price 2, py_round up_price 2))"

definition get_price_range :: "price_arg \<Rightarrow> band list \<Rightarrow> exn + pyfloat \<times> pyfloat" where
  "get_price_range arg ranges =
     (case arg of
        Malformed \<Rightarrow> Inl (InvalidPriceError NotANumber)
      | Numeric price \<Rightarrow>
          if float_le price (Flt 0) then Inl (InvalidPriceError NotPositive)
          else if float_lt price (lit 1 2) then Inl (InvalidPriceError BelowMinimum)
          else if float_lt (Flt 1000000) price then Inl (InvalidPriceError ExceedsMaximum)
          else
            (let index = band_index ranges price
             in (case subscript ranges index of
                   Inl e \<Rightarrow> Inl e
                 | Inr (start, end_price, fluctuation) \<Rightarrow>
                     (case tick_violation start price of
                        Some r \<Rightarrow> Inl (InvalidPriceError r)
                      | None \<Rightarrow>
                          (case down_fluctuation ranges index start fluctuation price of
                             Inl e \<Rightarrow> Inl e
                           | Inr down_fl \<Rightarrow> Inr (bounds price down_fl fluctuation))))))"

section \<open>The call on a shared heap\<close>

text \<open>The table is a list object that the caller shares with the function. To see what
  a call does to it, the body is run on a heap: a list of objects, an address being an
  index. Floats and tuples are immutable values; only lists are objects. The body
  allocates one list, for the comprehension \<^verbatim>\<open>[r[0] for r in ranges]\<close>, and fills it
  by appending; every other statement reads the heap or assigns to a local variable.\<close>

type_synonym addr = nat

datatype obj = Bands "band list" | Floats "pyfloat list"

type_synonym heap = "obj list"

definition lookup :: "heap \<Rightarrow> addr \<Rightarrow> obj option" where
  "lookup h a = (if a < length h then Some (h ! a) else None)"

definition alloc :: "heap \<Rightarrow> obj \<Rightarrow> addr \<times> heap" where
  "alloc h ob = (length h, h @ [ob])"

text \<open>The comprehension: the list iterator reads the length and the \<open>i\<close>-th element of
  \<^verbatim>\<open>ranges\<close> from the heap at every step, and each step appends \<^verbatim>\<open>r[0]\<close> to the new
  list. The value \<open>None\<close> stands for a heap in which an address does not hold a list of
  the declared type.\<close>

function starts_loop :: "addr \<Rightarrow> addr \<Rightarrow> nat \<Rightarrow> heap \<Rightarrow> heap option" where
  "starts_loop ranges result i h =
     (case (lookup h ranges, lookup h result) of
        (Some (Bands rs), Some (Floats out)) \<Rightarrow>
          if i < length rs
          then starts_loop ranges result (i + 1) (h[result := Floats (out @ [fst (rs ! i)])])
          else Some h
      | _ \<Rightarrow> None)"
  by pat_completeness auto
termination
proof (relation "measure (\<lambda>(ranges, result, i, h).
    (case lookup h ranges of Some (Bands rs) \<Rightarrow> length rs | _ \<Rightarrow> 0) - i)", goal_cases)
  case 1
  show ?case by simp
next
  case (2 ranges result i h x y x2 rs x2a out)
  then have "lookup h ranges = Some (Bands rs)" "lookup h result = Some (Floats out)" by simp_all
  then have "ranges \<noteq> result" "ranges < length h" by (auto simp: lookup_def split: if_splits)
  then have "lookup (h[result := Floats (out @ [fst (rs ! i)])]) ranges = Some (Bands rs)"
    using \<open>lookup h ranges = Some (Bands rs)\<close> by (simp add: lookup_def)
  with 2 \<open>lookup h ranges = Some (Bands rs)\<close> show ?case by simp
qed

declare starts_loop.simps [simp del]

text \<open>The body of \<^verbatim>\<open>get_price_range\<close> statement by statement, \<^verbatim>\<open>ranges\<close> being the address
  of the table. An exception leaves the function with the heap as it is at the raise.\<close>

definition get_price_range_in ::
    "price_arg \<Rightarrow> addr \<Rightarrow> heap \<Rightarrow> ((exn + pyfloat \<times> pyfloat) \<times> heap) option" where
  "get_price_range_in arg ranges h =
     (case arg of
        Malformed \<Rightarrow> Some (Inl (InvalidPriceError NotANumber), h)
      | Numeric price \<Rightarrow>
          if float_le price (Flt 0) then Some (Inl (InvalidPriceError NotPositive), h)
          else if float_lt price (lit 1 2) then Some (Inl (InvalidPriceError BelowMinimum), h)
          else if float_lt (Flt 1000000) price
            then Some (Inl (InvalidPriceError ExceedsMaximum), h)
          else
            (let (result, h1) = alloc h (Floats [])
             in (case starts_loop ranges result 0 h1 of
                   None \<Rightarrow> None
                 | Some h2 \<Rightarrow>
                     (case (lookup h2 result, lookup h2 ranges) of
                        (Some (Floats starts), Some (Bands rs)) \<Rightarrow>
                          Some
                           (let index = int (bisect_right starts price) - 1
                            in (case subscript rs index of
                                  Inl e \<Rightarrow> Inl e
                                | Inr (start, end_price, fluctuation) \<Rightarrow>
                                    (case tick_violation start price of
                                       Some r \<Rightarrow> Inl (InvalidPriceError r)
                                     | None \<Rightarrow>
                                         (case down_fluctuation rs index start fluctuation price of
                                            Inl e \<Rightarrow> Inl e
                                          | Inr down_fl \<Rightarrow>
                                              Inr (bounds price down_fl fluctuation)))),
                            h2)
                      | _ \<Rightarrow> None))))"

section \<open>Properties of the rounding functions\<close>

lemma round_half_even_err: "\<bar>of_int (round_half_even t) - t\<bar> \<le> 1 / 2"
proof -
  have "of_int \<lfloor>t\<rfloor> \<le> t" "t < of_int \<lfloor>t\<rfloor> + 1" by linarith+
  then show ?thesis
    unfolding round_half_even_def Let_def by (auto simp: abs_le_iff)
qed

lemma round_half_even_of_int: "round_half_even (of_int k) = k"
  by (simp add: round_half_even_def)

lemma round_half_even_mono:
  assumes "s \<le> t"
  shows "round_half_even s \<le> round_half_even t"
proof (cases "\<lfloor>s\<rfloor> = \<lfloor>t\<rfloor>")
  case True
  then show ?thesis using assms unfolding round_half_even_def Let_def by auto
next
  case False
  then have "\<lfloor>s\<rfloor> + 1 \<le> \<lfloor>t\<rfloor>" using floor_mono[OF assms] by linarith
  moreover have "round_half_even s \<le> \<lfloor>s\<rfloor> + 1" "\<lfloor>t\<rfloor> \<le> round_half_even t"
    unfolding round_half_even_def Let_def by auto
  ultimately show ?thesis by linarith
qed

lemma round_half_even_eqI:
  assumes "\<bar>t - of_int m\<bar> < 1 / 2"
  shows "round_half_even t = m"
proof -
  have f: "of_int \<lfloor>t\<rfloor> \<le> t" "t < of_int \<lfloor>t\<rfloor> + 1" by linarith+
  have "of_int \<lfloor>t\<rfloor> < (of_int m :: rat) + 1" "(of_int m :: rat) - 1 < of_int \<lfloor>t\<rfloor> + 1"
    using assms f by linarith+
  then have "of_int \<lfloor>t\<rfloor> < (of_int (m + 1) :: rat)" "(of_int (m - 1) :: rat) < of_int (\<lfloor>t\<rfloor> + 1)"
    by simp_all
  then have "\<lfloor>t\<rfloor> = m \<or> \<lfloor>t\<rfloor> = m - 1"
    unfolding of_int_less_iff by linarith
  then show ?thesis
    using assms f unfolding round_half_even_def Let_def
    by (auto simp: abs_less_iff)
qed

lemma flog2_bounds:
  assumes "x \<noteq> 0"
  shows "2 powi flog2 x \<le> \<bar>x\<bar>" and "\<bar>x\<bar> < 2 powi (flog2 x + 1)"
proof -
  obtain p q where pq: "quotient_of \<bar>x\<bar> = (p, q)" by force
  have q: "0 < q" using quotient_of_denom_pos[OF pq] .
  have x: "\<bar>x\<bar> = of_int p / of_int q" using quotient_of_div[OF pq] .
  have "0 < \<bar>x\<bar>" using assms by simp
  then have p: "0 < p" unfolding x using q by (simp add: zero_less_divide_iff)
  define d where "d = bitlen p - bitlen q"
  have bp1: "1 \<le> bitlen p" and bq1: "1 \<le> bitlen q" using p q by (auto simp: bitlen_alt_def)
  have bp: "2 ^ nat (bitlen p - 1) \<le> p" "p < 2 ^ nat (bitlen p)" using bitlen_bounds[OF p] by auto
  have bq: "2 ^ nat (bitlen q - 1) \<le> q" "q < 2 ^ nat (bitlen q)" using bitlen_bounds[OF q] by auto
  have pw: "(2::rat) powi (bitlen k - 1) = of_int (2 ^ nat (bitlen k - 1))"
      "(2::rat) powi (bitlen k) = of_int (2 ^ nat (bitlen k))" if "1 \<le> bitlen k" for k
    using that by (simp_all add: power_int_def)
  have rp: "(2::rat) powi (bitlen p - 1) \<le> of_int p" "(of_int p :: rat) < 2 powi (bitlen p)"
    unfolding pw[OF bp1] using bp by (simp_all only: of_int_le_iff of_int_less_iff)
  have rq: "(2::rat) powi (bitlen q - 1) \<le> of_int q" "(of_int q :: rat) < 2 powi (bitlen q)"
    unfolding pw[OF bq1] using bq by (simp_all only: of_int_le_iff of_int_less_iff)
  have upper: "\<bar>x\<bar> < 2 powi (d + 1)"
  proof -
    have "of_int p < (2::rat) powi (d + 1) * 2 powi (bitlen q - 1)"
      using rp(2) by (simp add: d_def flip: power_int_add)
    also have "\<dots> \<le> 2 powi (d + 1) * of_int q"
      using rq(1) by (simp add: mult_left_mono)
    finally show ?thesis unfolding x using q by (simp add: pos_divide_less_eq)
  qed
  have lower: "2 powi (d - 1) \<le> \<bar>x\<bar>"
  proof -
    have "(2::rat) powi (d - 1) * of_int q \<le> 2 powi (d - 1) * 2 powi (bitlen q)"
      using rq(2) by (simp add: mult_left_mono)
    also have "\<dots> \<le> of_int p"
      using rp(1) by (simp add: d_def flip: power_int_add)
    finally show ?thesis unfolding x using q by (simp add: pos_le_divide_eq)
  qed
  show "2 powi flog2 x \<le> \<bar>x\<bar>" 
    using lower by (auto simp: flog2_def pq Let_def d_def)
  show "\<bar>x\<bar> < 2 powi (flog2 x + 1)"
    using upper by (auto simp: flog2_def pq Let_def d_def not_le)
qed

lemma flog2_unique:
  assumes "2 powi e \<le> \<bar>x\<bar>" and "\<bar>x\<bar> < 2 powi (e + 1)"
  shows "flog2 x = e"
proof -
  have "(0::rat) < 2 powi e" by simp
  with assms(1) have "0 < \<bar>x\<bar>" by linarith
  then have nz: "x \<noteq> 0" by simp
  note b = flog2_bounds[OF nz]
  have "flog2 x < e + 1"
  proof (rule ccontr)
    assume "\<not> flog2 x < e + 1"
    then have "(2::rat) powi (e + 1) \<le> 2 powi flog2 x" by (intro power_int_increasing) auto
    with b(1) assms(2) show False by linarith
  qed
  moreover have "e < flog2 x + 1"
  proof (rule ccontr)
    assume "\<not> e < flog2 x + 1"
    then have "(2::rat) powi (flog2 x + 1) \<le> 2 powi e" by (intro power_int_increasing) auto
    with b(2) assms(1) show False by linarith
  qed
  ultimately show ?thesis by linarith
qed

lemma round_binary64_eval:
  assumes b: "2 powi e \<le> \<bar>x\<bar>" "\<bar>x\<bar> < 2 powi (e + 1)"
    and e: "- 1022 \<le> e" "e \<le> 1022"
    and m: "round_half_even (x / 2 powi (e - 52)) = m"
  shows "round_binary64 x = Flt (of_int m * 2 powi (e - 52))"
proof -
  have "(0::rat) < 2 powi e" by simp
  with b(1) have "0 < \<bar>x\<bar>" by linarith
  then have nz: "x \<noteq> 0" by simp
  have fl: "flog2 x = e" using b by (rule flog2_unique)
  define q :: rat where "q = 2 powi (e - 52)"
  have q: "quantum x = q" "0 < q" using e by (simp_all add: quantum_def fl q_def max_def)
  have "e + 1 = 53 + (e - 52)" by simp
  then have "(2::rat) powi (e + 1) = 2 powi (53 + (e - 52))" by (rule arg_cong)
  also have "\<dots> = 2 powi 53 * 2 powi (e - 52)" by (rule power_int_add) simp
  finally have two: "(2::rat) powi (e + 1) = 2 ^ 53 * q" by (simp add: q_def)
  have "\<bar>x / q\<bar> < 2 ^ 53" 
    using b(2) q(2) unfolding two by (simp add: pos_divide_less_eq)
  then have "- (2 ^ 53) \<le> x / q" "x / q \<le> 2 ^ 53" by linarith+
  then have "of_int (- (2 ^ 53)) \<le> x / q" "x / q \<le> of_int (2 ^ 53)" by simp_all
  then have "- (2 ^ 53) \<le> m" "m \<le> 2 ^ 53"
    using round_half_even_mono[of "of_int (- (2 ^ 53))" "x / q"] round_half_even_mono[of "x / q" "of_int (2 ^ 53)"]
    unfolding round_half_even_of_int m[folded q_def] by simp_all
  then have "\<bar>m\<bar> \<le> 2 ^ 53" by linarith
  then have "(of_int \<bar>m\<bar> :: rat) \<le> of_int (2 ^ 53)" by (simp only: of_int_le_iff)
  then have "\<bar>(of_int m :: rat)\<bar> \<le> 2 ^ 53" by simp
  then have "\<bar>of_int m * q\<bar> \<le> 2 powi (e + 1)"
    unfolding two using q(2) by (simp add: abs_mult mult_right_mono)
  also have "\<dots> < 2 powi 1024" using e by (intro power_int_strict_increasing) auto
  finally show ?thesis
    using nz m by (simp add: round_binary64_def q Let_def flip: q_def)
qed

lemma round_binary64_near:
  assumes "\<bar>x\<bar> < 2 powi n" and "- 1021 \<le> n" and "n \<le> 1023"
  obtains r where "round_binary64 x = Flt r" and "\<bar>r - x\<bar> \<le> 2 powi (n - 54)"
proof (cases "x = 0")
  case True
  then show ?thesis using that[of 0] by (simp add: round_binary64_def)
next
  case nz: False
  define q where "q = quantum x"
  define r where "r = of_int (round_half_even (x / q)) * q"
  have q0: "0 < q" by (simp add: q_def quantum_def)
  have "flog2 x < n"
  proof (rule ccontr)
    assume "\<not> flog2 x < n"
    then have "(2::rat) powi n \<le> 2 powi flog2 x" by (intro power_int_increasing) auto
    with flog2_bounds(1)[OF nz] assms(1) show False by linarith
  qed
  then have "max (flog2 x) (- 1022) - 52 \<le> n - 53" using assms(2) by linarith
  then have qle: "q \<le> 2 powi (n - 53)" unfolding q_def quantum_def by (intro power_int_increasing) auto
  have "r - x = (of_int (round_half_even (x / q)) - x / q) * q"
    using q0 by (simp add: r_def field_simps)
  then have "\<bar>r - x\<bar> = \<bar>of_int (round_half_even (x / q)) - x / q\<bar> * q"
    using q0 by (simp add: abs_mult)
  also have "\<dots> \<le> 1 / 2 * q" using round_half_even_err[of "x / q"] q0 by (intro mult_right_mono) auto
  also have "\<dots> \<le> 1 / 2 * 2 powi (n - 53)" using qle by simp
  also have "\<dots> = 2 powi (n - 54)"
  proof -
    have "n - 53 = 1 + (n - 54)" by simp
    then have "(2::rat) powi (n - 53) = 2 powi (1 + (n - 54))" by (rule arg_cong)
    also have "\<dots> = 2 powi 1 * 2 powi (n - 54)" by (rule power_int_add) simp
    finally show ?thesis by simp
  qed
  finally have err: "\<bar>r - x\<bar> \<le> 2 powi (n - 54)" .
  have "(2::rat) powi (n - 54) \<le> 2 powi n" by (intro power_int_increasing) auto
  with err assms(1) have "\<bar>r\<bar> < 2 powi n + 2 powi n" by linarith
  also have "\<dots> = 2 powi 1 * 2 powi n" by simp
  also have "\<dots> = 2 powi (1 + n)" by (rule power_int_add[symmetric]) simp
  also have "\<dots> \<le> 2 powi 1024" using assms(3) by (intro power_int_increasing) auto
  finally have "\<bar>r\<bar> < 2 powi 1024" .
  then have "round_binary64 x = Flt r" using nz by (simp add: round_binary64_def Let_def r_def q_def)
  with err show ?thesis using that by blast
qed

section \<open>Evaluating the float operations on concrete values\<close>

text \<open>A rounding is settled by naming the exponent \<open>e\<close> and the significand \<open>m\<close>
  of the result; the side conditions are decided by arithmetic on numerals.\<close>

lemma round_binary64_evalI:
  assumes "2 powi e \<le> \<bar>x\<bar>" and "\<bar>x\<bar> < 2 powi (e + 1)"
    and "- 1022 \<le> e" and "e \<le> 1022"
    and "\<bar>x / 2 powi (e - 52) - of_int m\<bar> < 1 / 2"
    and "r = of_int m * 2 powi (e - 52)"
  shows "round_binary64 x = Flt r"
  using round_binary64_eval[OF assms(1-4) round_half_even_eqI[OF assms(5)]] assms(6) by simp

lemma round_binary64_zero: "round_binary64 0 = Flt 0"
  by (simp add: round_binary64_def)

lemma py_round_evalI:
  assumes "\<bar>a * 10 ^ n - of_int k\<bar> < 1 / 2"
    and "round_binary64 (of_int k / 10 ^ n) = Flt r"
  shows "py_round (Flt a) n = Flt r"
  using round_half_even_eqI[OF assms(1)] assms(2) by simp

lemma floor_rat_numeral: "\<lfloor>(numeral a / numeral b :: rat)\<rfloor> = numeral a div numeral b"
  using floor_divide_of_int_eq[of "numeral a" "numeral b", where ?'a = rat] by simp

lemma lit_evalI: "round_binary64 (of_int m / 10 ^ k) = Flt r \<Longrightarrow> lit m k = Flt r"
  by (simp add: lit_def)

lemma float_add_evalI: "round_binary64 (a + b) = Flt r \<Longrightarrow> float_add (Flt a) (Flt b) = Flt r"
  by simp

lemma float_sub_evalI: "round_binary64 (a - b) = Flt r \<Longrightarrow> float_sub (Flt a) (Flt b) = Flt r"
  by (simp add: float_sub_def)

lemma float_mul_evalI: "round_binary64 (a * b) = Flt r \<Longrightarrow> float_mul (Flt a) (Flt b) = Flt r"
  by simp

lemma lit_1_2: "lit 1 2 = Flt (5764607523034235 / 576460752303423488)"
  by (rule lit_evalI, rule round_binary64_evalI[where e="(- 7)" and m="5764607523034235"])
     (simp_all add: power_int_def power_divide)

lemma lit_5_2: "lit 5 2 = Flt (3602879701896397 / 72057594037927936)"
  by (rule lit_evalI, rule round_binary64_evalI[where e="(- 5)" and m="7205759403792794"])
     (simp_all add: power_int_def power_divide)

lemma lit_1_1: "lit 1 1 = Flt (3602879701896397 / 36028797018963968)"
  by (rule lit_evalI, rule round_binary64_evalI[where e="(- 4)" and m="7205759403792794"])
     (simp_all add: power_int_def power_divide)

lemma lit_5_1: "lit 5 1 = Flt (1 / 2)"
  by (rule lit_evalI, rule round_binary64_evalI[where e="(- 1)" and m="4503599627370496"])
     (simp_all add: power_int_def power_divide)

lemma lit_10_1: "lit 10 1 = Flt 1"
  by (rule lit_evalI, rule round_binary64_evalI[where e="0" and m="4503599627370496"])
     (simp_all add: power_int_def power_divide)

lemma lit_50_1: "lit 50 1 = Flt 5"
  by (rule lit_evalI, rule round_binary64_evalI[where e="2" and m="5629499534213120"])
     (simp_all add: power_int_def power_divide)

lemma lit_500_2: "lit 500 2 = Flt 5"
  by (rule lit_evalI, rule round_binary64_evalI[where e="2" and m="5629499534213120"])
     (simp_all add: power_int_def power_divide)

lemma mul_500_2: "float_mul (Flt 5) (Flt 100) = Flt 500"
  by (rule float_mul_evalI, rule round_binary64_evalI[where e="8" and m="8796093022208000"])
     (simp_all add: power_int_def power_divide)

lemma sub_down_500_2: "float_sub (Flt 5) (Flt (5764607523034235 / 576460752303423488)) = Flt (2809120267572347 / 562949953421312)"
  by (rule float_sub_evalI, rule round_binary64_evalI[where e="2" and m="5618240535144694"])
     (simp_all add: power_int_def power_divide)

lemma add_up_500_2: "float_add (Flt 5) (Flt (5764607523034235 / 576460752303423488)) = Flt (2820379266640773 / 562949953421312)"
  by (rule float_add_evalI, rule round_binary64_evalI[where e="2" and m="5640758533281546"])
     (simp_all add: power_int_def power_divide)

lemma round_low_500_2: "py_round (Flt (2809120267572347 / 562949953421312)) 2 = Flt (2809120267572347 / 562949953421312)"
  by (rule py_round_evalI[where k="499"], simp,
      rule round_binary64_evalI[where e="2" and m="5618240535144694"])
     (simp_all add: power_int_def power_divide)

lemma round_up_500_2: "py_round (Flt (2820379266640773 / 562949953421312)) 2 = Flt (2820379266640773 / 562949953421312)"
  by (rule py_round_evalI[where k="501"], simp,
      rule round_binary64_evalI[where e="2" and m="5640758533281546"])
     (simp_all add: power_int_def power_divide)

lemma lit_10000_2: "lit 10000 2 = Flt 100"
  by (rule lit_evalI, rule round_binary64_evalI[where e="6" and m="7036874417766400"])
     (simp_all add: power_int_def power_divide)

lemma mul_10000_2: "float_mul (Flt 100) (Flt 2) = Flt 200"
  by (rule float_mul_evalI, rule round_binary64_evalI[where e="7" and m="7036874417766400"])
     (simp_all add: power_int_def power_divide)

lemma sub_down_10000_2: "float_sub (Flt 100) (Flt (3602879701896397 / 36028797018963968)) = Flt (3514918771674317 / 35184372088832)"
  by (rule float_sub_evalI, rule round_binary64_evalI[where e="6" and m="7029837543348634"])
     (simp_all add: power_int_def power_divide)

lemma add_up_10000_2: "float_add (Flt 100) (Flt (1 / 2)) = Flt (201 / 2)"
  by (rule float_add_evalI, rule round_binary64_evalI[where e="6" and m="7072058789855232"])
     (simp_all add: power_int_def power_divide)

lemma round_low_10000_2: "py_round (Flt (3514918771674317 / 35184372088832)) 2 = Flt (3514918771674317 / 35184372088832)"
  by (rule py_round_evalI[where k="9990"], simp,
      rule round_binary64_evalI[where e="6" and m="7029837543348634"])
     (simp_all add: power_int_def power_divide)

lemma round_up_10000_2: "py_round (Flt (201 / 2)) 2 = Flt (201 / 2)"
  by (rule py_round_evalI[where k="10050"], simp,
      rule round_binary64_evalI[where e="6" and m="7072058789855232"])
     (simp_all add: power_int_def power_divide)

lemma lit_100000_2: "lit 100000 2 = Flt 1000"
  by (rule lit_evalI, rule round_binary64_evalI[where e="9" and m="8796093022208000"])
     (simp_all add: power_int_def power_divide)

lemma sub_down_100000_2: "float_sub (Flt 1000) (Flt 1) = Flt 999"
  by (rule float_sub_evalI, rule round_binary64_evalI[where e="9" and m="8787296929185792"])
     (simp_all add: power_int_def power_divide)

lemma add_up_100000_2: "float_add (Flt 1000) (Flt 5) = Flt 1005"
  by (rule float_add_evalI, rule round_binary64_evalI[where e="9" and m="8840073487319040"])
     (simp_all add: power_int_def power_divide)

lemma round_low_100000_2: "py_round (Flt 999) 2 = Flt 999"
  by (rule py_round_evalI[where k="99900"], simp,
      rule round_binary64_evalI[where e="9" and m="8787296929185792"])
     (simp_all add: power_int_def power_divide)

lemma round_up_100000_2: "py_round (Flt 1005) 2 = Flt 1005"
  by (rule py_round_evalI[where k="100500"], simp,
      rule round_binary64_evalI[where e="9" and m="8840073487319040"])
     (simp_all add: power_int_def power_divide)

lemma lit_1000_2: "lit 1000 2 = Flt 10"
  by (rule lit_evalI, rule round_binary64_evalI[where e="3" and m="5629499534213120"])
     (simp_all add: power_int_def power_divide)

lemma mul_1000_2: "float_mul (Flt 10) (Flt 20) = Flt 200"
  by (rule float_mul_evalI, rule round_binary64_evalI[where e="7" and m="7036874417766400"])
     (simp_all add: power_int_def power_divide)

lemma sub_down_1000_2: "float_sub (Flt 10) (Flt (5764607523034235 / 576460752303423488)) = Flt (5623870034678907 / 562949953421312)"
  by (rule float_sub_evalI, rule round_binary64_evalI[where e="3" and m="5623870034678907"])
     (simp_all add: power_int_def power_divide)

lemma add_up_1000_2: "float_add (Flt 10) (Flt (3602879701896397 / 72057594037927936)) = Flt (2828823515942093 / 281474976710656)"
  by (rule float_add_evalI, rule round_binary64_evalI[where e="3" and m="5657647031884186"])
     (simp_all add: power_int_def power_divide)

lemma round_low_1000_2: "py_round (Flt (5623870034678907 / 562949953421312)) 2 = Flt (5623870034678907 / 562949953421312)"
  by (rule py_round_evalI[where k="999"], simp,
      rule round_binary64_evalI[where e="3" and m="5623870034678907"])
     (simp_all add: power_int_def power_divide)

lemma round_up_1000_2: "py_round (Flt (2828823515942093 / 281474976710656)) 2 = Flt (2828823515942093 / 281474976710656)"
  by (rule py_round_evalI[where k="1005"], simp,
      rule round_binary64_evalI[where e="3" and m="5657647031884186"])
     (simp_all add: power_int_def power_divide)

lemma lit_7_2: "lit 7 2 = Flt (1261007895663739 / 18014398509481984)"
  by (rule lit_evalI, rule round_binary64_evalI[where e="(- 4)" and m="5044031582654956"])
     (simp_all add: power_int_def power_divide)

lemma mul_7_2: "float_mul (Flt (1261007895663739 / 18014398509481984)) (Flt 100) = Flt (7881299347898369 / 1125899906842624)"
  by (rule float_mul_evalI, rule round_binary64_evalI[where e="2" and m="7881299347898369"])
     (simp_all add: power_int_def power_divide)

lemma lit_1003_2: "lit 1003 2 = Flt (5646388032815759 / 562949953421312)"
  by (rule lit_evalI, rule round_binary64_evalI[where e="3" and m="5646388032815759"])
     (simp_all add: power_int_def power_divide)

lemma mul_1003_2: "float_mul (Flt (5646388032815759 / 562949953421312)) (Flt 20) = Flt (7057985041019699 / 35184372088832)"
  by (rule float_mul_evalI, rule round_binary64_evalI[where e="7" and m="7057985041019699"])
     (simp_all add: power_int_def power_divide)

lemma mul_1_2: "float_mul (Flt (5764607523034235 / 576460752303423488)) (Flt 100) = Flt 1"
  by (rule float_mul_evalI, rule round_binary64_evalI[where e="0" and m="4503599627370496"])
     (simp_all add: power_int_def power_divide)

lemma sub_down_1_2: "float_sub (Flt (5764607523034235 / 576460752303423488)) (Flt (5764607523034235 / 576460752303423488)) = Flt 0"
  by (rule float_sub_evalI) (simp add: round_binary64_zero)

lemma add_up_1_2: "float_add (Flt (5764607523034235 / 576460752303423488)) (Flt (5764607523034235 / 576460752303423488)) = Flt (5764607523034235 / 288230376151711744)"
  by (rule float_add_evalI, rule round_binary64_evalI[where e="(- 6)" and m="5764607523034235"])
     (simp_all add: power_int_def power_divide)

lemma round_low_1_2: "py_round (Flt (5764607523034235 / 576460752303423488)) 2 = Flt (5764607523034235 / 576460752303423488)"
  by (rule py_round_evalI[where k="1"], simp,
      rule round_binary64_evalI[where e="(- 7)" and m="5764607523034235"])
     (simp_all add: power_int_def power_divide)

lemma round_up_1_2: "py_round (Flt (5764607523034235 / 288230376151711744)) 2 = Flt (5764607523034235 / 288230376151711744)"
  by (rule py_round_evalI[where k="2"], simp,
      rule round_binary64_evalI[where e="(- 6)" and m="5764607523034235"])
     (simp_all add: power_int_def power_divide)

lemma lit_5_3: "lit 5 3 = Flt (5764607523034235 / 1152921504606846976)"
  by (rule lit_evalI, rule round_binary64_evalI[where e="(- 8)" and m="5764607523034235"])
     (simp_all add: power_int_def power_divide)

lemma lit_499_2: "lit 499 2 = Flt (2809120267572347 / 562949953421312)"
  by (rule lit_evalI, rule round_binary64_evalI[where e="2" and m="5618240535144694"])
     (simp_all add: power_int_def power_divide)

lemma lit_501_2: "lit 501 2 = Flt (2820379266640773 / 562949953421312)"
  by (rule lit_evalI, rule round_binary64_evalI[where e="2" and m="5640758533281546"])
     (simp_all add: power_int_def power_divide)

lemma lit_9990_2: "lit 9990 2 = Flt (3514918771674317 / 35184372088832)"
  by (rule lit_evalI, rule round_binary64_evalI[where e="6" and m="7029837543348634"])
     (simp_all add: power_int_def power_divide)

lemma lit_10050_2: "lit 10050 2 = Flt (201 / 2)"
  by (rule lit_evalI, rule round_binary64_evalI[where e="6" and m="7072058789855232"])
     (simp_all add: power_int_def power_divide)

lemma lit_99900_2: "lit 99900 2 = Flt 999"
  by (rule lit_evalI, rule round_binary64_evalI[where e="9" and m="8787296929185792"])
     (simp_all add: power_int_def power_divide)

lemma lit_100500_2: "lit 100500 2 = Flt 1005"
  by (rule lit_evalI, rule round_binary64_evalI[where e="9" and m="8840073487319040"])
     (simp_all add: power_int_def power_divide)

lemma lit_999_2: "lit 999 2 = Flt (5623870034678907 / 562949953421312)"
  by (rule lit_evalI, rule round_binary64_evalI[where e="3" and m="5623870034678907"])
     (simp_all add: power_int_def power_divide)

lemma lit_1005_2: "lit 1005 2 = Flt (2828823515942093 / 281474976710656)"
  by (rule lit_evalI, rule round_binary64_evalI[where e="3" and m="5657647031884186"])
     (simp_all add: power_int_def power_divide)

lemma lit_2_2: "lit 2 2 = Flt (5764607523034235 / 288230376151711744)"
  by (rule lit_evalI, rule round_binary64_evalI[where e="(- 6)" and m="5764607523034235"])
     (simp_all add: power_int_def power_divide)

lemmas table_lits = lit_1_2 lit_5_2 lit_1_1 lit_5_1 lit_10_1 lit_50_1

section \<open>The band lookup on the standard table\<close>

lemma bisect_right_starts:
  "bisect_right [c, Flt 10, Flt 50, Flt 100, Flt 150, Flt 500, Flt 1000] p =
     (if float_lt p (Flt 100)
      then (if float_lt p (Flt 10) then (if float_lt p c then 0 else 1)
            else if float_lt p (Flt 50) then 2 else 3)
      else if float_lt p (Flt 500) then (if float_lt p (Flt 150) then 4 else 5)
      else if float_lt p (Flt 1000) then 6 else 7)"
  by (simp add: bisect_right_def)

lemma all_less_7: "(\<forall>j<7. P j) \<longleftrightarrow> P 0 \<and> P 1 \<and> P 2 \<and> P 3 \<and> P 4 \<and> P 5 \<and> P (6::nat)"
proof -
  have "j < 7 \<longleftrightarrow> j = 0 \<or> j = 1 \<or> j = 2 \<or> j = 3 \<or> j = 4 \<or> j = 5 \<or> j = 6" for j :: nat
    by linarith
  then show ?thesis by auto
qed

lemma band_index_standard:
  "band_index create_price_table p =
     (if float_lt p (Flt 100)
      then (if float_lt p (Flt 10) then (if float_lt p (lit 1 2) then - 1 else 0)
            else if float_lt p (Flt 50) then 1 else 2)
      else if float_lt p (Flt 500) then (if float_lt p (Flt 150) then 3 else 4)
      else if float_lt p (Flt 1000) then 5 else 6)"
  by (simp add: band_index_def create_price_table_def bisect_right_starts)

lemmas eval_defs = get_price_range_def band_index_def bisect_right_starts
  subscript_def tick_violation_def down_fluctuation_def bounds_def py_max_def py_min_def
  float_le_def float_eq_def round_binary64_zero lit_1_2 floor_rat_numeral

section \<open>The scenarios of the specification\<close>

lemma price_5_00:
  "get_price_range (Numeric (lit 500 2)) create_price_table = Inr (lit 499 2, lit 501 2)"
  unfolding create_price_table_def table_lits lit_500_2 lit_499_2 lit_501_2
  by (simp add: eval_defs mul_500_2 sub_down_500_2 add_up_500_2 round_low_500_2 round_up_500_2
      del: float_mul.simps float_add.simps py_round.simps)

lemma price_100_00:
  "get_price_range (Numeric (lit 10000 2)) create_price_table = Inr (lit 9990 2, lit 10050 2)"
  unfolding create_price_table_def table_lits lit_10000_2 lit_9990_2 lit_10050_2
  by (simp add: eval_defs mul_10000_2 sub_down_10000_2 add_up_10000_2 round_low_10000_2
      round_up_10000_2 del: float_mul.simps float_add.simps py_round.simps)

lemma price_1000_00:
  "get_price_range (Numeric (lit 100000 2)) create_price_table = Inr (lit 99900 2, lit 100500 2)"
  unfolding create_price_table_def table_lits lit_100000_2 lit_99900_2 lit_100500_2
  by (simp add: eval_defs sub_down_100000_2 add_up_100000_2 round_low_100000_2 round_up_100000_2
      del: float_mul.simps float_add.simps py_round.simps)

lemma price_10_00:
  "get_price_range (Numeric (lit 1000 2)) create_price_table = Inr (lit 999 2, lit 1005 2)"
  unfolding create_price_table_def table_lits lit_1000_2 lit_999_2 lit_1005_2
  by (simp add: eval_defs mul_1000_2 sub_down_1000_2 add_up_1000_2 round_low_1000_2
      round_up_1000_2 del: float_mul.simps float_add.simps py_round.simps)

lemma price_0_01:
  "get_price_range (Numeric (lit 1 2)) create_price_table = Inr (lit 1 2, lit 2 2)"
  unfolding create_price_table_def table_lits lit_2_2
  by (simp add: eval_defs mul_1_2 sub_down_1_2 add_up_1_2 round_low_1_2
      round_up_1_2 del: float_mul.simps float_add.simps py_round.simps)

lemma price_0_07:
  "get_price_range (Numeric (lit 7 2)) create_price_table = Inl (InvalidPriceError TwoDecimals)"
  unfolding create_price_table_def table_lits lit_7_2
  by (simp add: eval_defs mul_7_2 del: float_mul.simps float_add.simps py_round.simps)

lemma price_10_03:
  "get_price_range (Numeric (lit 1003 2)) create_price_table = Inl (InvalidPriceError MultipleOf005)"
  unfolding create_price_table_def table_lits lit_1003_2
  by (simp add: eval_defs mul_1003_2 del: float_mul.simps float_add.simps py_round.simps)

lemma price_nan:
  "get_price_range (Numeric NaN) create_price_table = Inr (NaN, NaN)"
  unfolding create_price_table_def table_lits
  by (simp add: eval_defs float_sub_def)

section \<open>The bounds of a price in range\<close>

text \<open>With a price between 0.01 and 1000000 and fluctuations between 0.01 and 5, every
  rounding of the computation is off by less than \<open>2^-33\<close>, far below the half cent by
  which \<^verbatim>\<open>round(x, 2)\<close> may move a value.\<close>

lemma py_max_Flt: "py_max (Flt a) (Flt b) = Flt (max a b)"
  by (simp add: py_max_def max_def)

lemma py_min_Flt: "py_min (Flt a) (Flt b) = Flt (min a b)"
  by (simp add: py_min_def min_def)

lemma round_binary64_near_price:
  assumes "\<bar>x\<bar> \<le> 2000000"
  obtains r where "round_binary64 x = Flt r" and "\<bar>r - x\<bar> \<le> 1 / 8589934592"
proof -
  have "(2::rat) powi 21 = 2097152" "(2::rat) powi (21 - 54) = 1 / 8589934592"
    by (simp_all add: power_int_def power_divide)
  with assms round_binary64_near[of x 21] that show ?thesis by auto
qed

lemma bounds_enclose:
  fixes x d f :: rat
  defines "c \<equiv> 5764607523034235 / 576460752303423488"
  assumes x: "c \<le> x" "x \<le> 1000000"
    and d: "1 / 100 \<le> d" "d \<le> 5" and f: "1 / 100 \<le> f" "f \<le> 5"
  shows "\<exists>lo hi. bounds (Flt x) (Flt d) (Flt f) = (Flt lo, Flt hi) \<and> c \<le> lo \<and> lo \<le> x \<and> x \<le> hi"
proof -
  have c: "1 / 100 \<le> c" "c \<le> 1 / 100 + 1 / 8589934592" by (simp_all add: c_def)
  have "\<bar>x - d\<bar> \<le> 2000000" using x d c by linarith
  then obtain a where a: "round_binary64 (x - d) = Flt a" "\<bar>a - (x - d)\<bar> \<le> 1 / 8589934592"
    by (rule round_binary64_near_price)
  have "\<bar>x + f\<bar> \<le> 2000000" using x f c by linarith
  then obtain b where b: "round_binary64 (x + f) = Flt b" "\<bar>b - (x + f)\<bar> \<le> 1 / 8589934592"
    by (rule round_binary64_near_price)
  define y where "y = min (max a c) x"
  have y: "c \<le> y" "y \<le> x" using x by (auto simp: y_def)
  define k where "k = round_half_even (y * 100)"
  have ky: "\<bar>of_int k - y * 100\<bar> \<le> 1 / 2"
    using round_half_even_err[of "y * 100"] by (simp add: k_def)
  have "round_half_even (c * 100) = 1"
    by (rule round_half_even_eqI) (simp add: c_def)
  then have k1: "1 \<le> k"
    using round_half_even_mono[of "c * 100" "y * 100"] y by (simp add: k_def)
  have "\<bar>of_int k / 100 :: rat\<bar> \<le> 2000000" using ky y x c by linarith
  then obtain lo where lo: "round_binary64 (of_int k / 100) = Flt lo"
      "\<bar>lo - of_int k / 100\<bar> \<le> 1 / 8589934592"
    by (rule round_binary64_near_price)
  define k' where "k' = round_half_even (b * 100)"
  have kb: "\<bar>of_int k' - b * 100\<bar> \<le> 1 / 2"
    using round_half_even_err[of "b * 100"] by (simp add: k'_def)
  have "\<bar>of_int k' / 100 :: rat\<bar> \<le> 2000000" using kb b x f c by linarith
  then obtain hi where hi: "round_binary64 (of_int k' / 100) = Flt hi"
      "\<bar>hi - of_int k' / 100\<bar> \<le> 1 / 8589934592"
    by (rule round_binary64_near_price)
  have res: "bounds (Flt x) (Flt d) (Flt f) = (Flt lo, Flt hi)"
    using lo(1) hi(1)
    by (simp add: bounds_def float_sub_def a b lit_1_2 py_max_Flt py_min_Flt k_def k'_def y_def c_def)
  have lo_ge: "c \<le> lo"
  proof (cases "k = 1")
    case True
    then have "Flt lo = lit 1 2" using lo(1) by (simp add: lit_def)
    then show ?thesis by (simp add: lit_1_2 c_def)
  next
    case False
    with k1 have "2 \<le> k" by linarith
    then have "(2::rat) \<le> of_int k" by linarith
    with lo(2) c show ?thesis by linarith
  qed
  have lo_le: "lo \<le> x"
  proof (cases "a \<le> c")
    case True
    then have "y = c" using x by (simp add: y_def)
    then have "k = 1" unfolding k_def by (simp add: round_half_even_eqI c_def)
    then have "Flt lo = lit 1 2" using lo(1) by (simp add: lit_def)
    then show ?thesis using x by (simp add: lit_1_2 c_def)
  next
    case False
    then have "y \<le> a" by (simp add: y_def)
    with a(2) ky lo(2) d show ?thesis by linarith
  qed
  have "x \<le> hi" using b(2) kb hi(2) f by linarith
  with res lo_ge lo_le show ?thesis by blast
qed

text \<open>The final clamp, for any downward fluctuation that is a float or an infinity: the
  clamped value lies between 0.01 and the price, and rounding a value at most the price
  to two decimals does not pass a price that has two decimals itself.\<close>

lemma lit_two_decimals:
  assumes "1 \<le> k" and "k \<le> 100000000"
  obtains x where "lit k 2 = Flt x" and "\<bar>x - of_int k / 100\<bar> \<le> 1 / 8589934592"
    and "round_half_even (x * 100) = k"
proof -
  have "\<bar>of_int k / 100 :: rat\<bar> \<le> 2000000" using assms by simp
  then obtain x where x: "round_binary64 (of_int k / 100) = Flt x"
      "\<bar>x - of_int k / 100\<bar> \<le> 1 / 8589934592"
    by (rule round_binary64_near_price)
  have "\<bar>x * 100 - of_int k\<bar> < 1 / 2" using x(2) by linarith
  then have "round_half_even (x * 100) = k" by (rule round_half_even_eqI)
  with x that show ?thesis by (simp add: lit_def)
qed

lemma round_binary64_not_NaN: "round_binary64 x \<noteq> NaN"
  by (simp add: round_binary64_def Let_def)

lemma float_sub_not_NaN: "d \<noteq> NaN \<Longrightarrow> float_sub (Flt x) d \<noteq> NaN"
  by (cases d) (simp_all add: float_sub_def round_binary64_not_NaN)

lemma clamp_range:
  assumes "a \<noteq> NaN" and "c \<le> x"
  obtains z where "py_min (py_max a (Flt c)) (Flt x) = Flt z" and "c \<le> z" and "z \<le> x"
proof (cases a)
  case (Flt a1)
  show ?thesis
    using assms(2) that[of "min (max a1 c) x"] by (simp add: Flt py_max_Flt py_min_Flt)
next
  case PInf
  then show ?thesis using assms(2) that[of x] by (simp add: py_max_def py_min_def)
next
  case NInf
  then show ?thesis using assms(2) that[of c] by (simp add: py_max_def py_min_def)
next
  case NaN
  with assms(1) show ?thesis by simp
qed

lemma lower_bound_clamped:
  fixes x :: rat
  defines "c \<equiv> 5764607523034235 / 576460752303423488"
  assumes k: "1 \<le> k" "k \<le> 100000000" and x: "lit k 2 = Flt x" "c \<le> x" and d: "d \<noteq> NaN"
  shows "\<exists>lo. fst (bounds (Flt x) d f) = Flt lo \<and> c \<le> lo \<and> lo \<le> x"
proof -
  have c: "1 / 100 \<le> c" "c \<le> 1 / 100 + 1 / 8589934592" by (simp_all add: c_def)
  obtain x' where x': "lit k 2 = Flt x'" "\<bar>x' - of_int k / 100\<bar> \<le> 1 / 8589934592"
      "round_half_even (x' * 100) = k"
    using k by (rule lit_two_decimals)
  with x(1) have xk: "\<bar>x - of_int k / 100\<bar> \<le> 1 / 8589934592" "round_half_even (x * 100) = k"
    by simp_all
  obtain z where z: "py_min (py_max (float_sub (Flt x) d) (Flt c)) (Flt x) = Flt z"
      "c \<le> z" "z \<le> x"
    using float_sub_not_NaN[OF d] x(2) by (rule clamp_range)
  define j where "j = round_half_even (z * 100)"
  have "round_half_even (c * 100) = 1"
    by (rule round_half_even_eqI) (simp add: c_def)
  then have j1: "1 \<le> j"
    using round_half_even_mono[of "c * 100" "z * 100"] z(2) by (simp add: j_def)
  have jk: "j \<le> k"
    using round_half_even_mono[of "z * 100" "x * 100"] z(3) xk(2) by (simp add: j_def)
  have "\<bar>of_int j / 100 :: rat\<bar> \<le> 2000000" using j1 jk k by simp
  then obtain lo where lo: "round_binary64 (of_int j / 100) = Flt lo"
      "\<bar>lo - of_int j / 100\<bar> \<le> 1 / 8589934592"
    by (rule round_binary64_near_price)
  have res: "fst (bounds (Flt x) d f) = Flt lo"
    using lo(1) z(1) by (simp add: bounds_def Let_def lit_1_2 j_def c_def)
  have lo_ge: "c \<le> lo"
  proof (cases "j = 1")
    case True
    then have "Flt lo = lit 1 2" using lo(1) by (simp add: lit_def)
    then show ?thesis by (simp add: lit_1_2 c_def)
  next
    case False
    with j1 have "2 \<le> j" by linarith
    then have "(2::rat) \<le> of_int j" by linarith
    with lo(2) c show ?thesis by linarith
  qed
  have lo_le: "lo \<le> x"
  proof (cases "j = k")
    case True
    then have "Flt lo = lit k 2" using lo(1) by (simp add: lit_def)
    then show ?thesis using x(1) by simp
  next
    case False
    with jk have "j + 1 \<le> k" by linarith
    then have "(of_int j :: rat) + 1 \<le> of_int k" by linarith
    with lo(2) xk(1) show ?thesis by linarith
  qed
  from res lo_ge lo_le show ?thesis by blast
qed

section \<open>The shape of a successful call\<close>

lemma subscript_nat: "i < length xs \<Longrightarrow> subscript xs (int i) = Inr (xs ! i)"
  by (simp add: subscript_def)

lemma success_range:
  assumes "get_price_range (Numeric p) ranges = Inr r"
  shows "\<not> float_le p (Flt 0)" and "\<not> float_lt p (lit 1 2)" and "\<not> float_lt (Flt 1000000) p"
  using assms by (simp_all add: get_price_range_def split: if_splits)

lemma result_at_index:
  assumes "get_price_range (Numeric price) ranges = Inr r"
    and "band_index ranges price = int i" and "i < length ranges"
    and "ranges ! i = (start, end_price, fluctuation)"
  shows "r = bounds price
              (if float_eq price start \<and> 0 < i then snd (snd (ranges ! (i - 1))) else fluctuation)
              fluctuation"
proof -
  have prev: "subscript ranges (int i - 1) = Inr (ranges ! (i - 1))" if "0 < i"
  proof -
    from that have eq: "int i - 1 = int (i - 1)" by linarith
    have "i - 1 < length ranges" using assms(3) by linarith
    then show ?thesis unfolding eq by (rule subscript_nat)
  qed
  note rng = success_range[OF assms(1)]
  have "(case tick_violation start price of
           Some r \<Rightarrow> Inl (InvalidPriceError r)
         | None \<Rightarrow>
            (case down_fluctuation ranges (int i) start fluctuation price of
               Inl e \<Rightarrow> Inl e
             | Inr down_fl \<Rightarrow> Inr (bounds price down_fl fluctuation))) = Inr r"
    using assms(1) rng
    by (simp add: get_price_range_def assms(2) subscript_nat[OF assms(3)] assms(4))
  then have "(case down_fluctuation ranges (int i) start fluctuation price of
               Inl e \<Rightarrow> Inl e
             | Inr down_fl \<Rightarrow> Inr (bounds price down_fl fluctuation)) = Inr r"
    by (simp split: option.splits)
  then show ?thesis
    by (cases "float_eq price start \<and> 0 < i") (auto simp: down_fluctuation_def prev split: prod.splits)
qed

lemma fluctuations_standard:
  "\<forall>i<7. (case snd (snd (create_price_table ! i)) of
              Flt f \<Rightarrow> 1 / 100 \<le> f \<and> f \<le> 5 | _ \<Rightarrow> False)"
  unfolding all_less_7 create_price_table_def table_lits by simp

lemma fluctuation_standard:
  assumes "i < 7"
  obtains f where "snd (snd (create_price_table ! i)) = Flt f" and "1 / 100 \<le> f" and "f \<le> 5"
proof -
  from fluctuations_standard assms
  have "case snd (snd (create_price_table ! i)) of Flt f \<Rightarrow> 1 / 100 \<le> f \<and> f \<le> 5 | _ \<Rightarrow> False"
    by blast
  then show ?thesis
    using that by (cases "snd (snd (create_price_table ! i))") simp_all
qed

lemma band_index_in_range:
  assumes "float_le (lit 1 2) p"
  shows "\<exists>i<7. band_index create_price_table p = int i"
proof -
  define k where "k = band_index create_price_table p"
  obtain x where p: "p = Flt x \<or> p = PInf"
    using assms by (cases p) (simp_all add: float_le_def float_eq_def lit_1_2)
  have "0 \<le> k \<and> k < 7"
    using assms p unfolding k_def band_index_standard
    by (auto simp: float_le_def float_eq_def lit_1_2)
  then have "nat k < 7 \<and> k = int (nat k)" by linarith
  then show ?thesis unfolding k_def by blast
qed

lemma success_shape:
  assumes "get_price_range (Numeric (Flt x)) create_price_table = Inr r"
  shows "5764607523034235 / 576460752303423488 \<le> x \<and> x \<le> 1000000
     \<and> (\<exists>d f. r = bounds (Flt x) (Flt d) (Flt f)
            \<and> 1 / 100 \<le> d \<and> d \<le> 5 \<and> 1 / 100 \<le> f \<and> f \<le> 5)"
proof -
  have rng: "5764607523034235 / 576460752303423488 \<le> x" "x \<le> 1000000"
    using success_range[OF assms] by (simp_all add: lit_1_2)
  then have "float_le (lit 1 2) (Flt x)" by (auto simp: float_le_def float_eq_def lit_1_2)
  then obtain i where i: "i < 7" "band_index create_price_table (Flt x) = int i"
    using band_index_in_range by blast
  obtain s e fl where band: "create_price_table ! i = (s, e, fl)"
    by (cases "create_price_table ! i")
  have len: "i < length create_price_table" using i(1) by (simp add: create_price_table_def)
  note r = result_at_index[OF assms i(2) len band]
  obtain f where f: "fl = Flt f" "1 / 100 \<le> f" "f \<le> 5"
    using fluctuation_standard[OF i(1)] band by auto
  obtain d where d:
    "(if float_eq (Flt x) s \<and> 0 < i then snd (snd (create_price_table ! (i - 1))) else fl) = Flt d"
    "1 / 100 \<le> d" "d \<le> 5"
  proof (cases "float_eq (Flt x) s \<and> 0 < i")
    case True
    have "i - 1 < 7" using i(1) by linarith
    from fluctuation_standard[OF this] True that show ?thesis by auto
  next
    case False
    then show ?thesis using f that[of f] by auto
  qed
  show ?thesis using rng r d f by auto
qed

lemma lower_bound_floor:
  assumes "p \<noteq> NaN"
    and "get_price_range (Numeric p) create_price_table = Inr (lower, upper)"
  shows "float_le (lit 1 2) lower"
proof -
  obtain x where p: "p = Flt x"
    using assms(1) success_range[OF assms(2)]
    by (cases p) (simp_all add: float_le_def float_eq_def)
  from success_shape[OF assms(2)[unfolded p]] obtain d f
    where x: "5764607523034235 / 576460752303423488 \<le> x" "x \<le> 1000000"
      and r: "(lower, upper) = bounds (Flt x) (Flt d) (Flt f)"
      and df: "1 / 100 \<le> d" "d \<le> 5" "1 / 100 \<le> f" "f \<le> 5"
    by blast
  from bounds_enclose[OF x df] r obtain lo
    where "lower = Flt lo" "5764607523034235 / 576460752303423488 \<le> lo" by auto
  then show ?thesis by (auto simp: lit_1_2 float_le_def float_eq_def)
qed

lemma subscript_in_set: "subscript xs i = Inr v \<Longrightarrow> v \<in> set xs"
  by (auto simp: subscript_def split: if_splits)

lemma success_general:
  assumes "get_price_range (Numeric price) ranges = Inr r"
  obtains band f where "band \<in> set ranges" and "r = bounds price (snd (snd band)) f"
proof -
  note rng = success_range[OF assms]
  define index where "index = band_index ranges price"
  obtain start end_price fluctuation
    where band: "subscript ranges index = Inr (start, end_price, fluctuation)"
    using assms rng
    by (cases "subscript ranges index")
       (auto simp: get_price_range_def index_def[symmetric])
  have "(case tick_violation start price of
           Some r \<Rightarrow> Inl (InvalidPriceError r)
         | None \<Rightarrow>
            (case down_fluctuation ranges index start fluctuation price of
               Inl e \<Rightarrow> Inl e
             | Inr down_fl \<Rightarrow> Inr (bounds price down_fl fluctuation))) = Inr r"
    using assms rng by (simp add: get_price_range_def index_def[symmetric] band)
  then obtain down_fl where d: "down_fluctuation ranges index start fluctuation price = Inr down_fl"
      "r = bounds price down_fl fluctuation"
    by (cases "down_fluctuation ranges index start fluctuation price")
       (auto split: option.splits)
  show ?thesis
  proof (cases "float_eq price start \<and> 0 < index")
    case True
    then obtain s e where "subscript ranges (index - 1) = Inr (s, e, down_fl)"
      using d(1) by (cases "subscript ranges (index - 1)")
        (auto simp: down_fluctuation_def split: prod.splits)
    from subscript_in_set[OF this] d(2) that[of "(s, e, down_fl)" fluctuation]
    show ?thesis by simp
  next
    case False
    then have "down_fl = fluctuation" using d(1) by (auto simp: down_fluctuation_def)
    with subscript_in_set[OF band] d(2) that[of "(start, end_price, fluctuation)" fluctuation]
    show ?thesis by simp
  qed
qed

lemma clamp_keeps_lower_bound:
  assumes "1 \<le> k" and "k \<le> 100000000"
    and "\<forall>band \<in> set ranges. snd (snd band) \<noteq> NaN"
    and "get_price_range (Numeric (lit k 2)) ranges = Inr (lower, upper)"
  shows "float_le lower (lit k 2) \<and> float_le (lit 1 2) lower"
proof -
  obtain x where x: "lit k 2 = Flt x"
    using assms(1,2) lit_two_decimals by blast
  have cx: "5764607523034235 / 576460752303423488 \<le> x"
    using success_range(2)[OF assms(4)] by (simp add: x lit_1_2)
  obtain band f where b: "band \<in> set ranges" "(lower, upper) = bounds (lit k 2) (snd (snd band)) f"
    using assms(4) by (rule success_general)
  from b(1) assms(3) have "snd (snd band) \<noteq> NaN" by blast
  from lower_bound_clamped[OF assms(1,2) x cx this, of f] b(2)
  obtain lo where "lower = Flt lo" "5764607523034235 / 576460752303423488 \<le> lo" "lo \<le> x"
    by (metis fst_conv x)
  then show ?thesis by (auto simp: x lit_1_2 float_le_def float_eq_def)
qed

text \<open>A table with a negative fluctuation, on which the clamp decides the lower bound:
  \<open>5.0 - (-1.0)\<close> is 6.0, and the clamp brings it back to 5.0.\<close>

lemma sub_clamp: "float_sub (Flt 5) (Flt (- 1)) = Flt 6"
  by (rule float_sub_evalI, rule round_binary64_evalI[where e="2" and m="6755399441055744"])
     (simp_all add: power_int_def power_divide)

lemma add_clamp: "float_add (Flt 5) (Flt (- 1)) = Flt 4"
  by (rule float_add_evalI, rule round_binary64_evalI[where e="2" and m="4503599627370496"])
     (simp_all add: power_int_def power_divide)

lemma round_clamp_low: "py_round (Flt 5) 2 = Flt 5"
  by (rule py_round_evalI[where k="500"], simp,
      rule round_binary64_evalI[where e="2" and m="5629499534213120"])
     (simp_all add: power_int_def power_divide)

lemma round_clamp_up: "py_round (Flt 4) 2 = Flt 4"
  by (rule py_round_evalI[where k="400"], simp,
      rule round_binary64_evalI[where e="2" and m="4503599627370496"])
     (simp_all add: power_int_def power_divide)

lemma price_5_00_falling_table:
  "get_price_range (Numeric (lit 500 2)) [(lit 1 2, PInf, Flt (- 1))] = Inr (Flt 5, Flt 4)"
  unfolding lit_500_2 lit_1_2
  by (simp add: get_price_range_def band_index_def bisect_right_def
      subscript_def tick_violation_def down_fluctuation_def bounds_def py_max_def py_min_def
      float_le_def float_eq_def lit_1_2 mul_500_2 sub_clamp add_clamp round_clamp_low
      round_clamp_up del: float_mul.simps float_add.simps py_round.simps)

section \<open>The call on the heap against the function\<close>

lemma starts_loop_result:
  assumes "lookup h ranges = Some (Bands rs)" and "lookup h result = Some (Floats out)"
    and "i \<le> length rs"
  shows "starts_loop ranges result i h = Some (h[result := Floats (out @ map fst (drop i rs))])"
  using assms
proof (induction "length rs - i" arbitrary: i h out)
  case 0
  then have "i = length rs" by simp
  moreover have "h[result := Floats out] = h"
    using "0.prems"(2) by (auto simp: lookup_def list_update_same_conv split: if_splits)
  ultimately show ?case
    using "0.prems" by (simp add: starts_loop.simps)
next
  case (Suc n)
  then have i: "i < length rs" by linarith
  define h' where "h' = h[result := Floats (out @ [fst (rs ! i)])]"
  have ne: "ranges \<noteq> result" "ranges < length h" "result < length h"
    using Suc.prems(1,2) by (auto simp: lookup_def split: if_splits)
  have l: "lookup h' ranges = Some (Bands rs)" "lookup h' result = Some (Floats (out @ [fst (rs ! i)]))"
    using ne Suc.prems(1) by (simp_all add: h'_def lookup_def)
  have "n = length rs - (i + 1)" using Suc.hyps(2) by linarith
  from Suc.hyps(1)[OF this l] i
  have "starts_loop ranges result (i + 1) h'
      = Some (h'[result := Floats ((out @ [fst (rs ! i)]) @ map fst (drop (i + 1) rs))])"
    by simp
  moreover have "drop i rs = rs ! i # drop (i + 1) rs"
    using i by (simp add: Cons_nth_drop_Suc)
  ultimately show ?case
    using Suc.prems(1,2) i
    by (subst starts_loop.simps) (simp add: h'_def)
qed

lemma get_price_range_in_refines:
  assumes "lookup h ranges = Some (Bands table)"
  shows "\<exists>h'. get_price_range_in arg ranges h = Some (get_price_range arg table, h')
     \<and> length h \<le> length h' \<and> (\<forall>a<length h. lookup h' a = lookup h a)"
proof (cases "\<exists>price. arg = Numeric price \<and> \<not> float_le price (Flt 0)
    \<and> \<not> float_lt price (lit 1 2) \<and> \<not> float_lt (Flt 1000000) price")
  case False
  then have "get_price_range_in arg ranges h = Some (get_price_range arg table, h)"
    by (cases arg) (auto simp: get_price_range_in_def get_price_range_def)
  then show ?thesis by auto
next
  case True
  then obtain price where a: "arg = Numeric price" "\<not> float_le price (Flt 0)"
    "\<not> float_lt price (lit 1 2)" "\<not> float_lt (Flt 1000000) price" by blast
  define h1 where "h1 = h @ [Floats []]"
  define h2 where "h2 = h @ [Floats (map fst table)]"
  have r: "ranges < length h" using assms by (auto simp: lookup_def split: if_splits)
  have "lookup h1 ranges = Some (Bands table)" "lookup h1 (length h) = Some (Floats [])"
    using assms r by (simp_all add: h1_def lookup_def nth_append)
  from starts_loop_result[OF this, of 0]
  have loop: "starts_loop ranges (length h) 0 h1 = Some h2"
    by (simp add: h1_def h2_def)
  have l2: "lookup h2 (length h) = Some (Floats (map fst table))"
    "lookup h2 ranges = Some (Bands table)"
    using assms r by (simp_all add: h2_def lookup_def nth_append)
  have "get_price_range_in arg ranges h = Some (get_price_range arg table, h2)"
    using a by (simp add: get_price_range_in_def get_price_range_def alloc_def
        h1_def[symmetric] loop l2 band_index_def)
  moreover have "\<forall>a<length h. lookup h2 a = lookup h a"
    by (simp add: h2_def lookup_def nth_append)
  moreover have "length h \<le> length h2" by (simp add: h2_def)
  ultimately show ?thesis by blast
qed

section \<open>The claims\<close>

text \<open>
  C1: on the standard table the price 5.00 gives (4.99, 5.01), the price 100.00 gives
  (99.90, 100.50) and the price 1000.00 gives (999.00, 1005.00).
\<close>

theorem scenario_prices:
  "get_price_range (Numeric (lit 500 2)) create_price_table = Inr (lit 499 2, lit 501 2)
   \<and> get_price_range (Numeric (lit 10000 2)) create_price_table = Inr (lit 9990 2, lit 10050 2)
   \<and> get_price_range (Numeric (lit 100000 2)) create_price_table
       = Inr (lit 99900 2, lit 100500 2)"
  using price_5_00 price_100_00 price_1000_00 by simp

text \<open>
  C2: when a call succeeds and the price equals the start of its band, which is not the
  first band, the lower bound is computed with the fluctuation of the band before it;
  otherwise with the fluctuation of its own band. The upper bound always uses the band's
  own fluctuation. The price 10.00 gives (9.99, 10.05).
\<close>

theorem boundary_uses_previous_band:
  assumes "get_price_range (Numeric price) ranges = Inr (lower, upper)"
    and "band_index ranges price = int i" and "i < length ranges"
    and "ranges ! i = (start, end_price, fluctuation)"
  shows "lower = py_round (py_min (py_max (float_sub price
                    (if float_eq price start \<and> 0 < i then snd (snd (ranges ! (i - 1)))
                     else fluctuation))
                  (lit 1 2)) price) 2
     \<and> upper = py_round (float_add price fluctuation) 2
     \<and> get_price_range (Numeric (lit 1000 2)) create_price_table = Inr (lit 999 2, lit 1005 2)"
  using result_at_index[OF assms] price_10_00 by (simp add: bounds_def Let_def)

theorem boundary_uses_previous_band_witness:
  "get_price_range (Numeric (lit 1000 2)) create_price_table = Inr (lit 999 2, lit 1005 2)
   \<and> band_index create_price_table (lit 1000 2) = int 1
   \<and> 1 < length create_price_table
   \<and> create_price_table ! 1 = (Flt 10, Flt 50, lit 5 2)
   \<and> float_eq (lit 1000 2) (Flt 10)
   \<and> snd (snd (create_price_table ! (1 - 1))) = lit 1 2
   \<and> lit 999 2 = py_round (py_min (py_max (float_sub (lit 1000 2) (lit 1 2)) (lit 1 2)) (lit 1000 2)) 2
   \<and> lit 1005 2 = py_round (float_add (lit 1000 2) (lit 5 2)) 2"
proof -
  have i: "band_index create_price_table (lit 1000 2) = int 1"
    by (simp add: band_index_standard lit_1000_2 lit_1_2)
  have b: "1 < length create_price_table" "create_price_table ! 1 = (Flt 10, Flt 50, lit 5 2)"
    by (simp_all add: create_price_table_def)
  note h = i b
  have e: "float_eq (lit 1000 2) (Flt 10)" "snd (snd (create_price_table ! (1 - 1))) = lit 1 2"
    by (simp_all add: float_eq_def lit_1000_2 create_price_table_def)
  from boundary_uses_previous_band[OF price_10_00 h] e
  have "lit 999 2 = py_round (py_min (py_max (float_sub (lit 1000 2) (lit 1 2)) (lit 1 2)) (lit 1000 2)) 2"
    "lit 1005 2 = py_round (float_add (lit 1000 2) (lit 5 2)) 2"
    by simp_all
  with price_10_00 h e show ?thesis by simp
qed

text \<open>
  C3 (the code departs from the claim): the price 0.07 is a whole number of cents, yet
  the call raises the two-decimals error, because the float product \<open>0.07 * 100\<close> is
  \<open>7 + 2^-50\<close> and not \<open>7\<close>.
\<close>

theorem tick_rule_rejects_valid_price:
  "get_price_range (Numeric (lit 7 2)) create_price_table = Inl (InvalidPriceError TwoDecimals)
   \<and> float_mul (lit 7 2) (Flt 100) = Flt (7 + 2 powi (- 50))"
  using price_0_07 mul_7_2 by (simp add: lit_7_2 power_int_def power_divide)

text \<open>
  C4: for a price between 0.01 and 1000000 the index found by the binary search is one of
  the seven bands; that band is the only one with \<open>start \<le> price < end\<close>, and it is the
  rightmost band whose start is at most the price.
\<close>

theorem band_lookup_selects_containing_band:
  assumes "float_le (lit 1 2) p" and "float_le p (Flt 1000000)"
  shows "0 \<le> band_index create_price_table p \<and> band_index create_price_table p < 7
     \<and> (\<forall>j<7. (case create_price_table ! j of
                  (start, end_price, fluctuation) \<Rightarrow> float_le start p \<and> float_lt p end_price)
               \<longleftrightarrow> int j = band_index create_price_table p)
     \<and> (\<forall>j<7. float_le (fst (create_price_table ! j)) p
               \<longleftrightarrow> int j \<le> band_index create_price_table p)"
proof -
  obtain x where p: "p = Flt x" and x: "5764607523034235 / 576460752303423488 \<le> x"
    using assms by (cases p) (auto simp: float_le_def float_eq_def lit_1_2)
  define k where "k = band_index create_price_table p"
  have k: "k = (if x < 100 then (if x < 10 then 0 else if x < 50 then 1 else 2)
                else if x < 500 then (if x < 150 then 3 else 4)
                else if x < 1000 then 5 else 6)"
    using x by (simp add: k_def band_index_standard p lit_1_2)
  have "0 \<le> k \<and> k < 7
     \<and> (\<forall>j<7. (case create_price_table ! j of
                  (start, end_price, fluctuation) \<Rightarrow> float_le start p \<and> float_lt p end_price)
               \<longleftrightarrow> int j = k)
     \<and> (\<forall>j<7. float_le (fst (create_price_table ! j)) p \<longleftrightarrow> int j \<le> k)"
    using x unfolding all_less_7 k p create_price_table_def table_lits
    by (auto simp: float_le_def float_eq_def)
  then show ?thesis unfolding k_def .
qed

theorem band_lookup_selects_containing_band_witness:
  "float_le (lit 1 2) (lit 500 2) \<and> float_le (lit 500 2) (Flt 1000000)
   \<and> band_index create_price_table (lit 500 2) = 0
   \<and> (case create_price_table ! 0 of
         (start, end_price, fluctuation) \<Rightarrow>
            float_le start (lit 500 2) \<and> float_lt (lit 500 2) end_price)
   \<and> \<not> (case create_price_table ! 1 of
         (start, end_price, fluctuation) \<Rightarrow>
            float_le start (lit 500 2) \<and> float_lt (lit 500 2) end_price)
   \<and> float_le (fst (create_price_table ! 0)) (lit 500 2)
   \<and> \<not> float_le (fst (create_price_table ! 1)) (lit 500 2)"
proof -
  have h: "float_le (lit 1 2) (lit 500 2)" "float_le (lit 500 2) (Flt 1000000)"
    by (simp_all add: float_le_def lit_1_2 lit_500_2)
  have i: "band_index create_price_table (lit 500 2) = 0"
    by (simp add: band_index_standard lit_1_2 lit_500_2)
  from band_lookup_selects_containing_band[OF h] h i show ?thesis
    unfolding all_less_7 by simp
qed

text \<open>
  C5: the range checks come before the lookup and the tick rule, whatever the table: a
  price above zero and below 0.01 (such as 0.005) is reported as below the minimum, and a
  price above 1000000 (such as 2000000) as exceeding the maximum.
\<close>

theorem range_checks_come_first:
  assumes "float_lt (Flt 0) p" and "float_lt p (lit 1 2)" and "float_lt (Flt 1000000) q"
  shows "get_price_range (Numeric p) ranges = Inl (InvalidPriceError BelowMinimum)
       \<and> get_price_range (Numeric q) ranges = Inl (InvalidPriceError ExceedsMaximum)
       \<and> get_price_range Malformed ranges = Inl (InvalidPriceError NotANumber)"
proof -
  have "\<not> float_le p (Flt 0)"
    using assms(1) by (cases p) (auto simp: float_le_def float_eq_def)
  moreover have "\<not> float_le q (Flt 0)" "\<not> float_lt q (lit 1 2)"
    using assms(3) by (cases q; auto simp: float_le_def float_eq_def lit_1_2)+
  ultimately show ?thesis
    using assms by (simp add: get_price_range_def)
qed

theorem range_checks_come_first_witness:
  "float_lt (Flt 0) (lit 5 3) \<and> float_lt (lit 5 3) (lit 1 2) \<and> float_lt (Flt 1000000) (Flt 2000000)
   \<and> get_price_range (Numeric (lit 5 3)) [] = Inl (InvalidPriceError BelowMinimum)
   \<and> get_price_range (Numeric (Flt 2000000)) [] = Inl (InvalidPriceError ExceedsMaximum)
   \<and> get_price_range Malformed [] = Inl (InvalidPriceError NotANumber)"
proof -
  have h: "float_lt (Flt 0) (lit 5 3)" "float_lt (lit 5 3) (lit 1 2)"
    "float_lt (Flt 1000000) (Flt 2000000)"
    by (simp_all add: lit_5_3 lit_1_2)
  show ?thesis using h range_checks_come_first[OF h, of "[]"] by simp
qed

text \<open>
  C6: the table has exactly the seven bands of the specification, in ascending order of
  their starts, each band ending where the next one starts.
\<close>

theorem create_price_table_bands:
  "create_price_table =
     [(lit 1 2, Flt 10, lit 1 2),
      (Flt 10, Flt 50, lit 5 2),
      (Flt 50, Flt 100, lit 1 1),
      (Flt 100, Flt 150, lit 5 1),
      (Flt 150, Flt 500, lit 5 1),
      (Flt 500, Flt 1000, lit 10 1),
      (Flt 1000, PInf, lit 50 1)]
   \<and> length create_price_table = 7
   \<and> sorted_wrt float_lt (map fst create_price_table)
   \<and> map (\<lambda>(start, end_price, fluctuation). end_price) (butlast create_price_table)
       = map fst (tl create_price_table)"
  unfolding create_price_table_def table_lits by simp

text \<open>
  C7: on the standard table, for a price between 0.01 and 1000000 on which the call
  succeeds, the lower bound is at most the price and the upper bound is at least the
  price. On any table whose fluctuations are not \<open>NaN\<close>, negative ones included, the
  final clamp keeps the lower bound of a successful call at or below a price that has
  two decimals.
\<close>

theorem bounds_enclose_price:
  assumes "float_le (lit 1 2) p" and "float_le p (Flt 1000000)"
    and "get_price_range (Numeric p) create_price_table = Inr (lower, upper)"
    and "1 \<le> k" and "k \<le> 100000000"
    and "\<forall>band \<in> set ranges. snd (snd band) \<noteq> NaN"
    and "get_price_range (Numeric (lit k 2)) ranges = Inr (clamped_lower, other_upper)"
  shows "float_le lower p \<and> float_le p upper \<and> float_le clamped_lower (lit k 2)"
proof -
  obtain x where p: "p = Flt x"
    using assms(1,2) by (cases p) (auto simp: float_le_def float_eq_def lit_1_2)
  from success_shape[OF assms(3)[unfolded p]] obtain d f
    where x: "5764607523034235 / 576460752303423488 \<le> x" "x \<le> 1000000"
      and r: "(lower, upper) = bounds (Flt x) (Flt d) (Flt f)"
      and df: "1 / 100 \<le> d" "d \<le> 5" "1 / 100 \<le> f" "f \<le> 5"
    by blast
  from bounds_enclose[OF x df] r obtain lo hi
    where "lower = Flt lo" "upper = Flt hi" "lo \<le> x" "x \<le> hi" by auto
  then have "float_le lower p \<and> float_le p upper" by (auto simp: p float_le_def float_eq_def)
  with clamp_keeps_lower_bound[OF assms(4-7)] show ?thesis by simp
qed

theorem bounds_enclose_price_witness:
  "float_le (lit 1 2) (lit 500 2) \<and> float_le (lit 500 2) (Flt 1000000)
   \<and> get_price_range (Numeric (lit 500 2)) create_price_table = Inr (lit 499 2, lit 501 2)
   \<and> float_le (lit 499 2) (lit 500 2) \<and> float_le (lit 500 2) (lit 501 2)
   \<and> get_price_range (Numeric (lit 500 2)) [(lit 1 2, PInf, Flt (- 1))] = Inr (Flt 5, Flt 4)
   \<and> float_sub (lit 500 2) (Flt (- 1)) = Flt 6
   \<and> float_le (Flt 5) (lit 500 2)"
proof -
  have h: "float_le (lit 1 2) (lit 500 2)" "float_le (lit 500 2) (Flt 1000000)"
    by (simp_all add: float_le_def lit_1_2 lit_500_2)
  have k: "(1::int) \<le> 500" "(500::int) \<le> 100000000" by simp_all
  have t: "\<forall>band \<in> set [(lit 1 2, PInf, Flt (- 1))]. snd (snd band) \<noteq> NaN" by simp
  have s: "float_sub (lit 500 2) (Flt (- 1)) = Flt 6" by (simp only: lit_500_2 sub_clamp)
  from bounds_enclose_price[OF h price_5_00 k t price_5_00_falling_table]
    h price_5_00 price_5_00_falling_table s
  show ?thesis by blast
qed

text \<open>A float that is a number and is not strictly positive is rejected as not
  positive, whatever the table.\<close>

lemma non_positive_number_rejected:
  assumes "p \<noteq> NaN" and "\<not> float_lt (Flt 0) p"
  shows "get_price_range (Numeric p) ranges = Inl (InvalidPriceError NotPositive)"
proof -
  have "float_le p (Flt 0)"
    using assms by (cases p) (auto simp: float_le_def float_eq_def)
  then show ?thesis by (simp add: get_price_range_def)
qed

text \<open>
  C8 (the code departs from the claim): the price \<open>NaN\<close> is not strictly positive, yet
  it is not rejected: the test \<^verbatim>\<open>price <= 0\<close> is false for it, the lookup gives it the
  top band, and the call returns a result.
\<close>

theorem nan_not_rejected_as_non_positive:
  "\<not> float_lt (Flt 0) NaN
   \<and> band_index create_price_table NaN = 6
   \<and> get_price_range (Numeric NaN) create_price_table = Inr (NaN, NaN)"
  using price_nan by (simp add: band_index_standard)

text \<open>
  C9: run on any heap that holds the table, a call returns; it returns what the function
  of the price and the table gives; every object that was on the heap before the call,
  the table among them, is the same after it; and a second call with the same price, on
  the heap the first one left, returns the same result.
\<close>

theorem get_price_range_deterministic:
  assumes "lookup h ranges = Some (Bands table)"
  shows "\<exists>r h1 h2. get_price_range_in arg ranges h = Some (r, h1)
     \<and> get_price_range_in arg ranges h1 = Some (r, h2)
     \<and> r = get_price_range arg table
     \<and> (\<forall>a<length h. lookup h1 a = lookup h a \<and> lookup h2 a = lookup h a)"
proof -
  have r: "ranges < length h" using assms by (auto simp: lookup_def split: if_splits)
  obtain h1 where h1: "get_price_range_in arg ranges h = Some (get_price_range arg table, h1)"
      "length h \<le> length h1" "\<forall>a<length h. lookup h1 a = lookup h a"
    using get_price_range_in_refines[OF assms] by blast
  have "lookup h1 ranges = Some (Bands table)" using h1(3) r assms by simp
  then obtain h2 where h2: "get_price_range_in arg ranges h1 = Some (get_price_range arg table, h2)"
      "\<forall>a<length h1. lookup h2 a = lookup h1 a"
    using get_price_range_in_refines by blast
  have "\<forall>a<length h. lookup h1 a = lookup h a \<and> lookup h2 a = lookup h a"
    using h1(2,3) h2(2) by auto
  with h1(1) h2(1) show ?thesis by blast
qed

theorem get_price_range_deterministic_witness:
  "lookup [Bands create_price_table] 0 = Some (Bands create_price_table)
   \<and> (\<exists>r h1 h2.
         get_price_range_in (Numeric (lit 500 2)) 0 [Bands create_price_table] = Some (r, h1)
       \<and> get_price_range_in (Numeric (lit 500 2)) 0 h1 = Some (r, h2)
       \<and> r = Inr (lit 499 2, lit 501 2)
       \<and> lookup h1 0 = Some (Bands create_price_table)
       \<and> lookup h2 0 = Some (Bands create_price_table))"
proof -
  have h: "lookup [Bands create_price_table] 0 = Some (Bands create_price_table)"
    by (simp add: lookup_def)
  from get_price_range_deterministic[OF h, of "Numeric (lit 500 2)"]
  obtain r h1 h2
    where "get_price_range_in (Numeric (lit 500 2)) 0 [Bands create_price_table] = Some (r, h1)"
      and "get_price_range_in (Numeric (lit 500 2)) 0 h1 = Some (r, h2)"
      and "r = get_price_range (Numeric (lit 500 2)) create_price_table"
      and "\<forall>a<length [Bands create_price_table].
             lookup h1 a = lookup [Bands create_price_table] a
           \<and> lookup h2 a = lookup [Bands create_price_table] a"
    by blast
  with h price_5_00 show ?thesis by auto
qed

text \<open>
  C10 (the code departs from the claim): the price \<open>NaN\<close> passes every check, and the
  call returns \<open>(NaN, NaN)\<close>, whose lower bound is not at least 0.01.
\<close>

theorem nan_passes_validation:
  "get_price_range (Numeric NaN) create_price_table = Inr (NaN, NaN)
   \<and> \<not> float_le (lit 1 2) NaN"
  using price_nan by (simp add: float_le_def float_eq_def lit_1_2)

end
